theory Spec2Isabelle
  imports Main "HOL-Library.Word"
begin

section \<open>The class \<open>ReferencedState\<close> of \<open>libredex/ReferencedState.h\<close>\<close>

text \<open>
  The class holds twelve \<open>bool\<close> members and one \<open>std::atomic<unsigned int>\<close>. The
  record below lists the members in the order of their declaration. The counter is a
  32-bit word: \<open>unsigned int\<close> has 32 bits on every platform the optimizer is built
  for, and \<open>m_keep_count++\<close> wraps around there. The development is sequential: the
  atomicity of the counter is outside its scope. The header only declares
  \<open>str()\<close>; it is left out.
\<close>

record ReferencedState =
  m_bytype :: bool
  m_bystring :: bool
  m_computed :: bool
  m_keep :: bool
  m_assumenosideeffects :: bool
  m_blanket_keepnames :: bool
  m_whyareyoukeeping :: bool
  m_set_allowshrinking :: bool
  m_unset_allowshrinking :: bool
  m_set_allowobfuscation :: bool
  m_unset_allowobfuscation :: bool
  m_keep_name :: bool
  m_keep_count :: "32 word"

text \<open>
  \<open>ReferencedState() = default\<close>: every member takes its default member initializer
  (lines 17 to 52 of the header).
\<close>

definition ReferencedState_init :: ReferencedState where
  "ReferencedState_init =
     \<lparr> m_bytype = False,
       m_bystring = False,
       m_computed = True,
       m_keep = False,
       m_assumenosideeffects = False,
       m_blanket_keepnames = False,
       m_whyareyoukeeping = False,
       m_set_allowshrinking = False,
       m_unset_allowshrinking = False,
       m_set_allowobfuscation = False,
       m_unset_allowobfuscation = False,
       m_keep_name = False,
       m_keep_count = 0 \<rparr>"

subsection \<open>The const member functions\<close>

definition keep :: "ReferencedState \<Rightarrow> bool" where
  "keep s = m_keep s"

definition allowshrinking :: "ReferencedState \<Rightarrow> bool" where
  "allowshrinking s = (\<not> m_unset_allowshrinking s \<and> m_set_allowshrinking s)"

definition allowobfuscation :: "ReferencedState \<Rightarrow> bool" where
  "allowobfuscation s = (\<not> m_unset_allowobfuscation s \<and> m_set_allowobfuscation s)"

definition assumenosideeffects :: "ReferencedState \<Rightarrow> bool" where
  "assumenosideeffects s = m_assumenosideeffects s"

definition can_delete :: "ReferencedState \<Rightarrow> bool" where
  "can_delete s = (\<not> m_bytype s \<and> (\<not> m_keep s \<or> allowshrinking s))"

definition can_rename :: "ReferencedState \<Rightarrow> bool" where
  "can_rename s =
     (\<not> m_keep_name s \<and> \<not> m_bystring s \<and> (\<not> m_keep s \<or> allowobfuscation s) \<and>
      \<not> allowshrinking s)"

definition is_blanket_names_kept :: "ReferencedState \<Rightarrow> bool" where
  "is_blanket_names_kept s = (m_blanket_keepnames s \<and> m_keep_count s = 1)"

definition report_whyareyoukeeping :: "ReferencedState \<Rightarrow> bool" where
  "report_whyareyoukeeping s = m_whyareyoukeeping s"

definition is_referenced_by_string :: "ReferencedState \<Rightarrow> bool" where
  "is_referenced_by_string s = m_bystring s"

definition is_referenced_by_type :: "ReferencedState \<Rightarrow> bool" where
  "is_referenced_by_type s = m_bytype s"

subsection \<open>The mutating member functions\<close>

text \<open>
  Each \<open>void\<close> member function takes the object's state and returns the state it
  leaves behind. In \<open>ref_by_string\<close> the chained assignment
  \<open>m_bytype = m_bystring = true\<close> writes \<open>m_bystring\<close> first.
\<close>

definition ref_by_string :: "bool \<Rightarrow> ReferencedState \<Rightarrow> ReferencedState" where
  "ref_by_string from_code s =
     s\<lparr> m_bystring := True, m_bytype := True, m_computed := (m_computed s \<and> from_code) \<rparr>"

definition ref_by_type :: "ReferencedState \<Rightarrow> ReferencedState" where
  "ref_by_type s = s\<lparr> m_bytype := True \<rparr>"

definition clear_if_compute :: "ReferencedState \<Rightarrow> ReferencedState" where
  "clear_if_compute s =
     (if m_computed s then s\<lparr> m_bystring := False, m_bytype := False \<rparr> else s)"

definition set_keep :: "ReferencedState \<Rightarrow> ReferencedState" where
  "set_keep s = s\<lparr> m_keep := True \<rparr>"

definition set_keep_name :: "ReferencedState \<Rightarrow> ReferencedState" where
  "set_keep_name s = s\<lparr> m_keep_name := True \<rparr>"

definition set_allowshrinking :: "ReferencedState \<Rightarrow> ReferencedState" where
  "set_allowshrinking s = s\<lparr> m_set_allowshrinking := True \<rparr>"

definition unset_allowshrinking :: "ReferencedState \<Rightarrow> ReferencedState" where
  "unset_allowshrinking s = s\<lparr> m_unset_allowshrinking := True \<rparr>"

definition set_allowobfuscation :: "ReferencedState \<Rightarrow> ReferencedState" where
  "set_allowobfuscation s = s\<lparr> m_set_allowobfuscation := True \<rparr>"

definition unset_allowobfuscation :: "ReferencedState \<Rightarrow> ReferencedState" where
  "unset_allowobfuscation s = s\<lparr> m_unset_allowobfuscation := True \<rparr>"

definition set_assumenosideeffects :: "ReferencedState \<Rightarrow> ReferencedState" where
  "set_assumenosideeffects s = s\<lparr> m_assumenosideeffects := True \<rparr>"

definition set_blanket_keepnames :: "ReferencedState \<Rightarrow> ReferencedState" where
  "set_blanket_keepnames s = s\<lparr> m_blanket_keepnames := True \<rparr>"

definition increment_keep_count :: "ReferencedState \<Rightarrow> ReferencedState" where
  "increment_keep_count s = s\<lparr> m_keep_count := m_keep_count s + 1 \<rparr>"

definition set_whyareyoukeeping :: "ReferencedState \<Rightarrow> ReferencedState" where
  "set_whyareyoukeeping s = s\<lparr> m_whyareyoukeeping := True \<rparr>"

subsection \<open>Sequences of calls on one object\<close>

text \<open>
  A call of a mutating member function, as a value: one constructor for each
  \<open>void\<close> member function of the class, \<open>RefByString\<close> with its argument.
\<close>

datatype member_fn =
    RefByString bool
  | RefByType
  | ClearIfCompute
  | SetKeep
  | SetKeepName
  | SetAllowShrinking
  | UnsetAllowShrinking
  | SetAllowObfuscation
  | UnsetAllowObfuscation
  | SetAssumeNoSideEffects
  | SetBlanketKeepnames
  | IncrementKeepCount
  | SetWhyAreYouKeeping

fun call :: "member_fn \<Rightarrow> ReferencedState \<Rightarrow> ReferencedState" where
  "call (RefByString from_code) s = ref_by_string from_code s"
| "call RefByType s = ref_by_type s"
| "call ClearIfCompute s = clear_if_compute s"
| "call SetKeep s = set_keep s"
| "call SetKeepName s = set_keep_name s"
| "call SetAllowShrinking s = set_allowshrinking s"
| "call UnsetAllowShrinking s = unset_allowshrinking s"
| "call SetAllowObfuscation s = set_allowobfuscation s"
| "call UnsetAllowObfuscation s = unset_allowobfuscation s"
| "call SetAssumeNoSideEffects s = set_assumenosideeffects s"
| "call SetBlanketKeepnames s = set_blanket_keepnames s"
| "call IncrementKeepCount s = increment_keep_count s"
| "call SetWhyAreYouKeeping s = set_whyareyoukeeping s"

text \<open>The calls of a list, first to last, on one object.\<close>

fun calls :: "member_fn list \<Rightarrow> ReferencedState \<Rightarrow> ReferencedState" where
  "calls [] s = s"
| "calls (m # ms) s = calls ms (call m s)"

subsection \<open>Several objects: the copy assignment\<close>

text \<open>
  \<open>operator=\<close> compares the addresses of its two objects, so it is modelled on a
  store that gives every address the state of the object there. When the addresses
  differ, the thirteen members are assigned one by one, the counter through
  \<open>other.m_keep_count.load()\<close>; on a self-assignment nothing is written. The
  reference \<open>*this\<close> it returns is the address it was given.
\<close>

type_synonym addr = nat

type_synonym store = "addr \<Rightarrow> ReferencedState"

definition operator_assign :: "addr \<Rightarrow> addr \<Rightarrow> store \<Rightarrow> store" where
  "operator_assign this other h =
     (if this \<noteq> other then
        h(this := (h this)
          \<lparr> m_bytype := m_bytype (h other),
            m_bystring := m_bystring (h other),
            m_computed := m_computed (h other),
            m_keep := m_keep (h other),
            m_assumenosideeffects := m_assumenosideeffects (h other),
            m_blanket_keepnames := m_blanket_keepnames (h other),
            m_whyareyoukeeping := m_whyareyoukeeping (h other),
            m_set_allowshrinking := m_set_allowshrinking (h other),
            m_unset_allowshrinking := m_unset_allowshrinking (h other),
            m_set_allowobfuscation := m_set_allowobfuscation (h other),
            m_unset_allowobfuscation := m_unset_allowobfuscation (h other),
            m_keep_name := m_keep_name (h other),
            m_keep_count := m_keep_count (h other) \<rparr>)
      else h)"

text \<open>
  A statement of a client: a member call on the object at an address, or the
  assignment \<open>*dst = *src\<close>.
\<close>

datatype stmt = Call addr member_fn | Assign addr addr

fun exec :: "stmt \<Rightarrow> store \<Rightarrow> store" where
  "exec (Call a m) h = h(a := call m (h a))"
| "exec (Assign dst src) h = operator_assign dst src h"

fun execs :: "stmt list \<Rightarrow> store \<Rightarrow> store" where
  "execs [] h = h"
| "execs (c # cs) h = execs cs (exec c h)"

text \<open>The store in which every object is as its constructor left it.\<close>

definition store_init :: store where
  "store_init = (\<lambda>a. ReferencedState_init)"

section \<open>Shared facts\<close>

lemmas getter_defs =
  keep_def allowshrinking_def allowobfuscation_def assumenosideeffects_def can_delete_def
  can_rename_def is_blanket_names_kept_def report_whyareyoukeeping_def
  is_referenced_by_string_def is_referenced_by_type_def

lemmas setter_defs =
  ref_by_string_def ref_by_type_def clear_if_compute_def set_keep_def set_keep_name_def
  set_allowshrinking_def unset_allowshrinking_def set_allowobfuscation_def
  unset_allowobfuscation_def set_assumenosideeffects_def set_blanket_keepnames_def
  increment_keep_count_def set_whyareyoukeeping_def

lemma calls_append: "calls (xs @ ys) s = calls ys (calls xs s)"
  by (induction xs arbitrary: s) simp_all

lemma call_set_allowshrinking:
  "m_set_allowshrinking (call m s) \<longleftrightarrow> m_set_allowshrinking s \<or> m = SetAllowShrinking"
  by (cases m) (simp_all add: setter_defs)

lemma call_unset_allowshrinking:
  "m_unset_allowshrinking (call m s) \<longleftrightarrow> m_unset_allowshrinking s \<or> m = UnsetAllowShrinking"
  by (cases m) (simp_all add: setter_defs)

lemma call_set_allowobfuscation:
  "m_set_allowobfuscation (call m s) \<longleftrightarrow> m_set_allowobfuscation s \<or> m = SetAllowObfuscation"
  by (cases m) (simp_all add: setter_defs)

lemma call_unset_allowobfuscation:
  "m_unset_allowobfuscation (call m s) \<longleftrightarrow>
     m_unset_allowobfuscation s \<or> m = UnsetAllowObfuscation"
  by (cases m) (simp_all add: setter_defs)

lemma call_blanket_keepnames:
  "m_blanket_keepnames (call m s) \<longleftrightarrow> m_blanket_keepnames s \<or> m = SetBlanketKeepnames"
  by (cases m) (simp_all add: setter_defs)

lemma call_keep_count:
  "m_keep_count (call m s) = m_keep_count s + (if m = IncrementKeepCount then 1 else 0)"
  by (cases m) (simp_all add: setter_defs)

lemma call_computed:
  "m_computed (call m s) \<longleftrightarrow> m_computed s \<and> m \<noteq> RefByString False"
  by (cases m) (simp_all add: setter_defs)

lemma calls_set_allowshrinking:
  "m_set_allowshrinking (calls ms s) \<longleftrightarrow> m_set_allowshrinking s \<or> SetAllowShrinking \<in> set ms"
  by (induction ms arbitrary: s) (auto simp: call_set_allowshrinking)

lemma calls_unset_allowshrinking:
  "m_unset_allowshrinking (calls ms s) \<longleftrightarrow>
     m_unset_allowshrinking s \<or> UnsetAllowShrinking \<in> set ms"
  by (induction ms arbitrary: s) (auto simp: call_unset_allowshrinking)

lemma calls_set_allowobfuscation:
  "m_set_allowobfuscation (calls ms s) \<longleftrightarrow>
     m_set_allowobfuscation s \<or> SetAllowObfuscation \<in> set ms"
  by (induction ms arbitrary: s) (auto simp: call_set_allowobfuscation)

lemma calls_unset_allowobfuscation:
  "m_unset_allowobfuscation (calls ms s) \<longleftrightarrow>
     m_unset_allowobfuscation s \<or> UnsetAllowObfuscation \<in> set ms"
  by (induction ms arbitrary: s) (auto simp: call_unset_allowobfuscation)

lemma calls_blanket_keepnames:
  "m_blanket_keepnames (calls ms s) \<longleftrightarrow> m_blanket_keepnames s \<or> SetBlanketKeepnames \<in> set ms"
  by (induction ms arbitrary: s) (auto simp: call_blanket_keepnames)

lemma calls_keep_count:
  "m_keep_count (calls ms s) = m_keep_count s + of_nat (count_list ms IncrementKeepCount)"
  by (induction ms arbitrary: s) (simp_all add: call_keep_count)

lemma calls_computed:
  "m_computed (calls ms s) \<longleftrightarrow> m_computed s \<and> RefByString False \<notin> set ms"
  by (induction ms arbitrary: s) (auto simp: call_computed)

text \<open>A sequence of modifier calls, in closed form: it depends on the set of calls only.\<close>

lemma calls_modifiers:
  "set ms \<subseteq> {SetAllowShrinking, UnsetAllowShrinking, SetAllowObfuscation, UnsetAllowObfuscation}
   \<Longrightarrow> calls ms s =
     s\<lparr> m_set_allowshrinking := m_set_allowshrinking s \<or> SetAllowShrinking \<in> set ms,
        m_unset_allowshrinking := m_unset_allowshrinking s \<or> UnsetAllowShrinking \<in> set ms,
        m_set_allowobfuscation := m_set_allowobfuscation s \<or> SetAllowObfuscation \<in> set ms,
        m_unset_allowobfuscation :=
          m_unset_allowobfuscation s \<or> UnsetAllowObfuscation \<in> set ms \<rparr>"
proof (induction ms arbitrary: s)
  case Nil
  show ?case by simp
next
  case (Cons m ms)
  from Cons.prems have m: "m = SetAllowShrinking \<or> m = UnsetAllowShrinking \<or>
      m = SetAllowObfuscation \<or> m = UnsetAllowObfuscation"
    and ms: "set ms \<subseteq> {SetAllowShrinking, UnsetAllowShrinking, SetAllowObfuscation,
      UnsetAllowObfuscation}"
    by auto
  show ?case
    unfolding calls.simps Cons.IH [OF ms]
    using m by (auto simp: setter_defs)
qed

lemma call_ref_invariant:
  "(m_bystring s \<longrightarrow> m_bytype s) \<Longrightarrow> m_bystring (call m s) \<longrightarrow> m_bytype (call m s)"
  by (cases m) (simp_all add: setter_defs)

lemma calls_ref_invariant:
  "(m_bystring s \<longrightarrow> m_bytype s) \<Longrightarrow> m_bystring (calls ms s) \<longrightarrow> m_bytype (calls ms s)"
proof (induction ms arbitrary: s)
  case Nil
  then show ?case by simp
next
  case (Cons m ms)
  show ?case
    unfolding calls.simps
    by (rule Cons.IH) (rule call_ref_invariant [OF Cons.prems])
qed

lemma operator_assign_this:
  "this \<noteq> other \<Longrightarrow> operator_assign this other h this = h other"
  by (simp add: operator_assign_def)

lemma operator_assign_elsewhere:
  "a \<noteq> this \<Longrightarrow> operator_assign this other h a = h a"
  by (simp add: operator_assign_def)

lemma operator_assign_self: "operator_assign a a h = h"
  by (simp add: operator_assign_def)

lemma operator_assign_cases:
  "operator_assign this other h a = (if a = this then h other else h a)"
  by (cases "this = other") (simp_all add: operator_assign_this operator_assign_elsewhere
      operator_assign_self)

lemma exec_ref_invariant:
  assumes "\<forall>a. m_bystring (h a) \<longrightarrow> m_bytype (h a)"
  shows "\<forall>a. m_bystring (exec c h a) \<longrightarrow> m_bytype (exec c h a)"
proof (cases c)
  case (Call b m)
  from assms have "m_bystring (h b) \<longrightarrow> m_bytype (h b)" by blast
  then have "m_bystring (call m (h b)) \<longrightarrow> m_bytype (call m (h b))"
    by (rule call_ref_invariant)
  with assms Call show ?thesis by simp
next
  case (Assign dst src)
  with assms show ?thesis by (simp add: operator_assign_cases)
qed

lemma execs_ref_invariant:
  "\<forall>a. m_bystring (h a) \<longrightarrow> m_bytype (h a) \<Longrightarrow>
   \<forall>a. m_bystring (execs cs h a) \<longrightarrow> m_bytype (execs cs h a)"
proof (induction cs arbitrary: h)
  case Nil
  then show ?case by simp
next
  case (Cons c cs)
  show ?case
    unfolding execs.simps
    by (rule Cons.IH) (rule exec_ref_invariant [OF Cons.prems])
qed

lemma count_list_replicate_same: "count_list (replicate n x) x = n"
  by (induction n) simp_all

lemma calls_replicate_increment:
  "m_keep_count (calls (replicate n IncrementKeepCount) s) = m_keep_count s + of_nat n"
  by (simp add: calls_keep_count count_list_replicate_same)

lemma word32_of_nat_eq_1: "(of_nat n :: 32 word) = 1 \<longleftrightarrow> n mod 2 ^ 32 = 1"
proof -
  have "(of_nat n :: 32 word) = 1 \<longleftrightarrow> (of_nat n :: 32 word) = of_nat 1"
    by simp
  also have "\<dots> \<longleftrightarrow> take_bit 32 n = take_bit 32 (1::nat)"
    by (simp only: word_of_nat_eq_iff) simp
  also have "\<dots> \<longleftrightarrow> n mod 2 ^ 32 = 1"
    by (simp add: take_bit_eq_mod)
  finally show ?thesis .
qed

lemma execs_replicate_increment:
  "execs (replicate n (Call a IncrementKeepCount)) h =
     h(a := (h a)\<lparr> m_keep_count := m_keep_count (h a) + of_nat n \<rparr>)"
proof (induction n arbitrary: h)
  case 0
  show ?case by simp
next
  case (Suc n)
  show ?case
    by (simp add: Suc.IH increment_keep_count_def fun_eq_iff add_ac)
qed

lemma calls_reference_only:
  "set ms \<subseteq> {RefByString True, RefByType, ClearIfCompute} \<Longrightarrow>
   \<exists>b' t'. calls ms (ReferencedState_init\<lparr> m_bystring := b, m_bytype := t \<rparr>) =
      ReferencedState_init\<lparr> m_bystring := b', m_bytype := t' \<rparr>"
proof (induction ms arbitrary: b t)
  case Nil
  show ?case by auto
next
  case (Cons m ms)
  from Cons.prems have m: "m = RefByString True \<or> m = RefByType \<or> m = ClearIfCompute"
    and ms: "set ms \<subseteq> {RefByString True, RefByType, ClearIfCompute}"
    by auto
  have "\<exists>b1 t1. call m (ReferencedState_init\<lparr> m_bystring := b, m_bytype := t \<rparr>) =
      ReferencedState_init\<lparr> m_bystring := b1, m_bytype := t1 \<rparr>"
    using m by (auto simp: setter_defs ReferencedState_init_def)
  then obtain b1 t1 where
    "call m (ReferencedState_init\<lparr> m_bystring := b, m_bytype := t \<rparr>) =
      ReferencedState_init\<lparr> m_bystring := b1, m_bytype := t1 \<rparr>"
    by blast
  then show ?case
    using Cons.IH [OF ms, where b = b1 and t = t1] by simp
qed

section \<open>The derived predicates\<close>

text \<open>
  C1. \<open>can_delete()\<close> is true exactly when the element is not referenced by type
  and either is not kept or shrinking is allowed. So it is false whenever
  \<open>m_bytype\<close> is set, and true when \<open>m_bytype\<close> is clear and either \<open>m_keep\<close>
  is clear or \<open>m_set_allowshrinking\<close> is set with \<open>m_unset_allowshrinking\<close> clear.
\<close>

theorem can_delete_iff:
  "(can_delete s \<longleftrightarrow> \<not> is_referenced_by_type s \<and> (\<not> keep s \<or> allowshrinking s)) \<and>
   (allowshrinking s \<longleftrightarrow> m_set_allowshrinking s \<and> \<not> m_unset_allowshrinking s) \<and>
   (m_bytype s \<longrightarrow> \<not> can_delete s) \<and>
   (\<not> m_bytype s \<and> (\<not> m_keep s \<or> (m_set_allowshrinking s \<and> \<not> m_unset_allowshrinking s))
      \<longrightarrow> can_delete s)"
  by (auto simp: can_delete_def is_referenced_by_type_def keep_def allowshrinking_def)

theorem can_delete_iff_witness:
  "\<not> can_delete (ref_by_type ReferencedState_init) \<and>
   \<not> can_delete (set_keep ReferencedState_init) \<and>
   can_delete (set_allowshrinking (set_keep ReferencedState_init)) \<and>
   \<not> can_delete (unset_allowshrinking (set_allowshrinking (set_keep ReferencedState_init)))"
  using can_delete_iff [of "ref_by_type ReferencedState_init"]
    can_delete_iff [of "set_keep ReferencedState_init"]
    can_delete_iff [of "set_allowshrinking (set_keep ReferencedState_init)"]
    can_delete_iff [of "unset_allowshrinking (set_allowshrinking (set_keep ReferencedState_init))"]
  by (simp add: ReferencedState_init_def getter_defs setter_defs)

text \<open>
  C2. \<open>can_rename()\<close> is true exactly when \<open>m_keep_name\<close> and \<open>m_bystring\<close> are
  clear, the element is not kept or obfuscation is allowed, and shrinking is not
  allowed. In a state where \<open>m_keep_name\<close>, \<open>m_bystring\<close>, \<open>m_keep\<close> and
  \<open>m_unset_allowshrinking\<close> are clear, the element can be renamed exactly when
  \<open>m_set_allowshrinking\<close> is clear, and after \<open>set_allowshrinking()\<close> it cannot,
  whatever the obfuscation bits are.
\<close>

theorem can_rename_iff:
  "(can_rename s \<longleftrightarrow>
      \<not> m_keep_name s \<and> \<not> is_referenced_by_string s \<and> (\<not> keep s \<or> allowobfuscation s) \<and>
      \<not> allowshrinking s) \<and>
   (allowobfuscation s \<longleftrightarrow> m_set_allowobfuscation s \<and> \<not> m_unset_allowobfuscation s) \<and>
   (\<not> m_keep_name s \<and> \<not> m_bystring s \<and> \<not> m_keep s \<and> \<not> m_unset_allowshrinking s \<longrightarrow>
      (can_rename s \<longleftrightarrow> \<not> m_set_allowshrinking s) \<and>
      \<not> can_rename (set_allowshrinking s) \<and>
      \<not> can_rename (set_allowshrinking (set_allowobfuscation s)) \<and>
      \<not> can_rename (set_allowshrinking (unset_allowobfuscation s)))"
  by (auto simp: can_rename_def is_referenced_by_string_def keep_def allowshrinking_def
      allowobfuscation_def set_allowshrinking_def set_allowobfuscation_def
      unset_allowobfuscation_def)

theorem can_rename_iff_witness:
  "can_rename ReferencedState_init \<and>
   \<not> can_rename (set_allowshrinking ReferencedState_init) \<and>
   \<not> can_rename (set_allowshrinking (set_allowobfuscation ReferencedState_init))"
  using can_rename_iff [of ReferencedState_init]
  by (simp add: ReferencedState_init_def getter_defs setter_defs)

text \<open>
  C10. The default-constructed record has every flag false but \<open>m_computed\<close>, which
  is true, and the counter 0; it can be deleted and it can be renamed.
\<close>

theorem fresh_can_delete_and_rename:
  "\<not> m_bytype ReferencedState_init \<and> \<not> m_bystring ReferencedState_init \<and>
   m_computed ReferencedState_init \<and> \<not> m_keep ReferencedState_init \<and>
   \<not> m_assumenosideeffects ReferencedState_init \<and>
   \<not> m_blanket_keepnames ReferencedState_init \<and>
   \<not> m_whyareyoukeeping ReferencedState_init \<and>
   \<not> m_set_allowshrinking ReferencedState_init \<and>
   \<not> m_unset_allowshrinking ReferencedState_init \<and>
   \<not> m_set_allowobfuscation ReferencedState_init \<and>
   \<not> m_unset_allowobfuscation ReferencedState_init \<and>
   \<not> m_keep_name ReferencedState_init \<and> m_keep_count ReferencedState_init = 0 \<and>
   can_delete ReferencedState_init \<and> can_rename ReferencedState_init"
  by (simp add: ReferencedState_init_def can_delete_def can_rename_def allowshrinking_def)

theorem fresh_can_delete_and_rename_witness:
  "can_delete (calls [] ReferencedState_init) \<and> can_rename (calls [] ReferencedState_init)"
  using fresh_can_delete_and_rename by simp

section \<open>The keep modifiers\<close>

text \<open>
  C3. After any sequence of calls on a fresh record, \<open>allowshrinking()\<close> is true
  exactly when \<open>set_allowshrinking()\<close> is among the calls and
  \<open>unset_allowshrinking()\<close> is not, whatever the order and the repetitions, and
  likewise for the obfuscation pair. From any state, one \<open>unset\<close> call makes the
  predicate false for good: unset dominates set. On sequences of the four modifier calls
  the combination of two sequences is commutative, associative and idempotent: the state
  reached depends on the set of calls made only.
\<close>

theorem modifier_pairs_merge:
  "(allowshrinking (calls ms ReferencedState_init) \<longleftrightarrow>
      SetAllowShrinking \<in> set ms \<and> UnsetAllowShrinking \<notin> set ms) \<and>
   (allowobfuscation (calls ms ReferencedState_init) \<longleftrightarrow>
      SetAllowObfuscation \<in> set ms \<and> UnsetAllowObfuscation \<notin> set ms) \<and>
   (UnsetAllowShrinking \<in> set ms \<longrightarrow> \<not> allowshrinking (calls ms s)) \<and>
   (UnsetAllowObfuscation \<in> set ms \<longrightarrow> \<not> allowobfuscation (calls ms s)) \<and>
   (set xs \<union> set ys \<union> set zs \<subseteq>
      {SetAllowShrinking, UnsetAllowShrinking, SetAllowObfuscation, UnsetAllowObfuscation} \<longrightarrow>
      calls (xs @ ys) s = calls (ys @ xs) s \<and>
      calls ((xs @ ys) @ zs) s = calls (xs @ (ys @ zs)) s \<and>
      calls (xs @ xs) s = calls xs s \<and>
      (set xs = set ys \<longrightarrow> calls xs s = calls ys s))"
proof -
  let ?M = "{SetAllowShrinking, UnsetAllowShrinking, SetAllowObfuscation, UnsetAllowObfuscation}"
  have shr: "allowshrinking (calls ms ReferencedState_init) \<longleftrightarrow>
      SetAllowShrinking \<in> set ms \<and> UnsetAllowShrinking \<notin> set ms"
    by (auto simp: allowshrinking_def calls_set_allowshrinking calls_unset_allowshrinking
        ReferencedState_init_def)
  have obf: "allowobfuscation (calls ms ReferencedState_init) \<longleftrightarrow>
      SetAllowObfuscation \<in> set ms \<and> UnsetAllowObfuscation \<notin> set ms"
    by (auto simp: allowobfuscation_def calls_set_allowobfuscation
        calls_unset_allowobfuscation ReferencedState_init_def)
  have dom1: "UnsetAllowShrinking \<in> set ms \<longrightarrow> \<not> allowshrinking (calls ms s)"
    by (simp add: allowshrinking_def calls_unset_allowshrinking)
  have dom2: "UnsetAllowObfuscation \<in> set ms \<longrightarrow> \<not> allowobfuscation (calls ms s)"
    by (simp add: allowobfuscation_def calls_unset_allowobfuscation)
  have aci: "calls (xs @ ys) s = calls (ys @ xs) s \<and>
      calls ((xs @ ys) @ zs) s = calls (xs @ (ys @ zs)) s \<and>
      calls (xs @ xs) s = calls xs s \<and>
      (set xs = set ys \<longrightarrow> calls xs s = calls ys s)"
    if sub: "set xs \<union> set ys \<union> set zs \<subseteq> ?M"
  proof -
    from sub have x: "set xs \<subseteq> ?M" and y: "set ys \<subseteq> ?M" by auto
    have only_set: "calls us s = calls vs s"
      if "set us \<subseteq> ?M" "set vs \<subseteq> ?M" "set us = set vs" for us vs
      using that by (simp add: calls_modifiers)
    have xy: "set (xs @ ys) \<subseteq> ?M" and yx: "set (ys @ xs) \<subseteq> ?M" and xx: "set (xs @ xs) \<subseteq> ?M"
      using x y by auto
    have c: "calls (xs @ ys) s = calls (ys @ xs) s"
      by (rule only_set [OF xy yx]) auto
    have i: "calls (xs @ xs) s = calls xs s"
      by (rule only_set [OF xx x]) auto
    have e: "set xs = set ys \<longrightarrow> calls xs s = calls ys s"
      using only_set [OF x y] by blast
    show ?thesis using c i e by simp
  qed
  show ?thesis using shr obf dom1 dom2 aci by blast
qed

theorem modifier_pairs_merge_witness:
  "allowshrinking (calls [SetAllowShrinking, SetAllowShrinking] ReferencedState_init) \<and>
   \<not> allowshrinking
     (calls [SetAllowShrinking, UnsetAllowShrinking, SetAllowShrinking] ReferencedState_init) \<and>
   \<not> allowobfuscation (calls [UnsetAllowObfuscation, SetAllowObfuscation] ReferencedState_init) \<and>
   calls ([SetAllowShrinking] @ [UnsetAllowShrinking]) ReferencedState_init =
     calls ([UnsetAllowShrinking] @ [SetAllowShrinking]) ReferencedState_init \<and>
   calls ([SetAllowShrinking] @ [SetAllowShrinking]) ReferencedState_init =
     calls [SetAllowShrinking] ReferencedState_init"
proof -
  have 1: "allowshrinking (calls [SetAllowShrinking, SetAllowShrinking] ReferencedState_init)"
    using modifier_pairs_merge [where ms = "[SetAllowShrinking, SetAllowShrinking]"
        and s = ReferencedState_init and xs = "[]" and ys = "[]" and zs = "[]"]
    by (simp del: calls.simps)
  have 2: "\<not> allowshrinking
     (calls [SetAllowShrinking, UnsetAllowShrinking, SetAllowShrinking] ReferencedState_init)"
    using modifier_pairs_merge [where ms = "[SetAllowShrinking, UnsetAllowShrinking,
        SetAllowShrinking]" and s = ReferencedState_init and xs = "[]" and ys = "[]"
        and zs = "[]"]
    by (simp del: calls.simps)
  have 3: "\<not> allowobfuscation
     (calls [UnsetAllowObfuscation, SetAllowObfuscation] ReferencedState_init)"
    using modifier_pairs_merge [where ms = "[UnsetAllowObfuscation, SetAllowObfuscation]"
        and s = ReferencedState_init and xs = "[]" and ys = "[]" and zs = "[]"]
    by (simp del: calls.simps)
  have 4: "calls ([SetAllowShrinking] @ [UnsetAllowShrinking]) ReferencedState_init =
     calls ([UnsetAllowShrinking] @ [SetAllowShrinking]) ReferencedState_init"
    using modifier_pairs_merge [where ms = "[]" and s = ReferencedState_init
        and xs = "[SetAllowShrinking]" and ys = "[UnsetAllowShrinking]" and zs = "[]"]
    by (simp del: calls.simps)
  have 5: "calls ([SetAllowShrinking] @ [SetAllowShrinking]) ReferencedState_init =
     calls [SetAllowShrinking] ReferencedState_init"
    using modifier_pairs_merge [where ms = "[]" and s = ReferencedState_init
        and xs = "[SetAllowShrinking]" and ys = "[]" and zs = "[]"]
    by (simp del: calls.simps)
  show ?thesis using 1 2 3 4 5 by blast
qed

section \<open>The reference flags\<close>

text \<open>
  C5. After every call of every sequence of member calls on a fresh record, a record
  referenced by string is referenced by type: every member call keeps this, since
  \<open>ref_by_string\<close> sets both flags, \<open>ref_by_type\<close> sets \<open>m_bytype\<close> only
  and \<open>clear_if_compute\<close> clears both or neither. It also holds of every object
  after every statement of a client that starts from fresh objects, calls members
  and copies one object to another.
\<close>

theorem string_reference_implies_type_reference:
  "(is_referenced_by_string (calls (take n ms) ReferencedState_init) \<longrightarrow>
      is_referenced_by_type (calls (take n ms) ReferencedState_init)) \<and>
   ((m_bystring s \<longrightarrow> m_bytype s) \<longrightarrow> (m_bystring (call m s) \<longrightarrow> m_bytype (call m s))) \<and>
   ref_by_string from_code s =
     s\<lparr> m_bystring := True, m_bytype := True, m_computed := m_computed s \<and> from_code \<rparr> \<and>
   ref_by_type s = s\<lparr> m_bytype := True \<rparr> \<and>
   clear_if_compute s =
     (if m_computed s then s\<lparr> m_bystring := False, m_bytype := False \<rparr> else s) \<and>
   (is_referenced_by_string (execs (take n cs) store_init a) \<longrightarrow>
      is_referenced_by_type (execs (take n cs) store_init a))"
proof -
  have init: "m_bystring ReferencedState_init \<longrightarrow> m_bytype ReferencedState_init"
    by (simp add: ReferencedState_init_def)
  have one: "is_referenced_by_string (calls (take n ms) ReferencedState_init) \<longrightarrow>
      is_referenced_by_type (calls (take n ms) ReferencedState_init)"
    unfolding is_referenced_by_string_def is_referenced_by_type_def
    by (rule calls_ref_invariant [OF init])
  have step: "(m_bystring s \<longrightarrow> m_bytype s) \<longrightarrow>
      (m_bystring (call m s) \<longrightarrow> m_bytype (call m s))"
    using call_ref_invariant [of s m] by blast
  have "\<forall>a. m_bystring (store_init a) \<longrightarrow> m_bytype (store_init a)"
    using init by (simp add: store_init_def)
  then have "\<forall>a. m_bystring (execs (take n cs) store_init a) \<longrightarrow>
      m_bytype (execs (take n cs) store_init a)"
    by (rule execs_ref_invariant)
  then have many: "is_referenced_by_string (execs (take n cs) store_init a) \<longrightarrow>
      is_referenced_by_type (execs (take n cs) store_init a)"
    unfolding is_referenced_by_string_def is_referenced_by_type_def by blast
  show ?thesis
    using one step many
    by (simp add: ref_by_string_def ref_by_type_def clear_if_compute_def)
qed

theorem string_reference_implies_type_reference_witness:
  "is_referenced_by_string
     (calls (take 2 [RefByType, RefByString False, ClearIfCompute]) ReferencedState_init) \<and>
   is_referenced_by_type
     (calls (take 2 [RefByType, RefByString False, ClearIfCompute]) ReferencedState_init) \<and>
   is_referenced_by_string
     (execs (take 2 [Call 0 (RefByString True), Assign 1 0, Call 0 ClearIfCompute])
        store_init 1) \<and>
   is_referenced_by_type
     (execs (take 2 [Call 0 (RefByString True), Assign 1 0, Call 0 ClearIfCompute])
        store_init 1)"
proof -
  have 1: "is_referenced_by_string
     (calls (take 2 [RefByType, RefByString False, ClearIfCompute]) ReferencedState_init)"
    by (simp add: is_referenced_by_string_def setter_defs)
  have 2: "is_referenced_by_string
     (execs (take 2 [Call 0 (RefByString True), Assign 1 0, Call 0 ClearIfCompute])
        store_init 1)"
    by (simp add: is_referenced_by_string_def setter_defs operator_assign_def store_init_def)
  note t = string_reference_implies_type_reference [where n = 2
      and ms = "[RefByType, RefByString False, ClearIfCompute]"
      and cs = "[Call 0 (RefByString True), Assign 1 0, Call 0 ClearIfCompute]"
      and a = 1 and s = ReferencedState_init and m = RefByType and from_code = True]
  from t 1 have 3: "is_referenced_by_type
     (calls (take 2 [RefByType, RefByString False, ClearIfCompute]) ReferencedState_init)"
    by blast
  from t 2 have 4: "is_referenced_by_type
     (execs (take 2 [Call 0 (RefByString True), Assign 1 0, Call 0 ClearIfCompute])
        store_init 1)"
    by blast
  show ?thesis using 1 2 3 4 by blast
qed

section \<open>The blanket keep-names flag\<close>

text \<open>
  C9. \<open>set_blanket_keepnames()\<close> writes \<open>m_blanket_keepnames\<close> and nothing
  else, so \<open>keep()\<close> is as before. After \<open>set_blanket_keepnames()\<close> and one
  \<open>increment_keep_count()\<close> on a fresh record, \<open>is_blanket_names_kept()\<close> is
  true while \<open>keep()\<close> is false and \<open>can_delete()\<close> is true: the first does not
  imply the second.
\<close>

theorem blanket_keepnames_without_keep:
  "set_blanket_keepnames s = s\<lparr> m_blanket_keepnames := True \<rparr> \<and>
   keep (set_blanket_keepnames s) = keep s \<and>
   is_blanket_names_kept (calls [SetBlanketKeepnames, IncrementKeepCount] ReferencedState_init) \<and>
   \<not> keep (calls [SetBlanketKeepnames, IncrementKeepCount] ReferencedState_init) \<and>
   can_delete (calls [SetBlanketKeepnames, IncrementKeepCount] ReferencedState_init) \<and>
   \<not> (\<forall>r. is_blanket_names_kept r \<longrightarrow> keep r)"
proof -
  let ?r = "calls [SetBlanketKeepnames, IncrementKeepCount] ReferencedState_init"
  have a: "is_blanket_names_kept ?r"
    by (simp add: is_blanket_names_kept_def setter_defs ReferencedState_init_def)
  have b: "\<not> keep ?r"
    by (simp add: keep_def setter_defs ReferencedState_init_def)
  have c: "can_delete ?r"
    by (simp add: can_delete_def allowshrinking_def setter_defs ReferencedState_init_def)
  from a b have d: "\<not> (\<forall>r. is_blanket_names_kept r \<longrightarrow> keep r)" by blast
  have e: "set_blanket_keepnames s = s\<lparr> m_blanket_keepnames := True \<rparr> \<and>
      keep (set_blanket_keepnames s) = keep s"
    by (simp add: set_blanket_keepnames_def keep_def)
  show ?thesis using a b c d e by blast
qed

theorem blanket_keepnames_without_keep_witness:
  "is_blanket_names_kept (increment_keep_count (set_blanket_keepnames ReferencedState_init)) \<and>
   \<not> keep (set_blanket_keepnames ReferencedState_init) \<and>
   can_delete (increment_keep_count (set_blanket_keepnames ReferencedState_init))"
proof -
  note t = blanket_keepnames_without_keep [of ReferencedState_init]
  from t have "is_blanket_names_kept
      (calls [SetBlanketKeepnames, IncrementKeepCount] ReferencedState_init)"
    and "can_delete (calls [SetBlanketKeepnames, IncrementKeepCount] ReferencedState_init)"
    and "keep (set_blanket_keepnames ReferencedState_init) = keep ReferencedState_init"
    by blast+
  then show ?thesis by (simp add: keep_def ReferencedState_init_def)
qed

section \<open>The computed flag\<close>

text \<open>
  The copy assignment writes \<open>m_computed\<close> like every other member. The object at
  address 0 loses the flag by \<open>ref_by_string(false)\<close> and has it again after
  \<open>*0 = *1\<close>, the object at address 1 being fresh: over the lifetime of one object
  the flag is not clear-only.
\<close>

theorem computed_restored_by_assignment:
  "\<not> m_computed (execs [Call 0 (RefByString False)] store_init 0) \<and>
   m_computed (execs [Call 0 (RefByString False), Assign 0 1] store_init 0)"
  by (simp add: store_init_def operator_assign_def ref_by_string_def ReferencedState_init_def)

text \<open>
  C4, for the member calls. \<open>ref_by_string(false)\<close> leaves \<open>m_computed\<close> false,
  \<open>ref_by_string(true)\<close> leaves it as it was, and so does every other member call.
  So over every sequence of member calls the flag never goes back from false to true:
  it is true at the end exactly when it was true at the start and
  \<open>ref_by_string(false)\<close> is not among the calls. The copy assignment is the one
  operation that can raise it: it gives the target the flag of its source.
\<close>

theorem computed_monotone_under_member_calls:
  "\<not> m_computed (ref_by_string False s) \<and>
   m_computed (ref_by_string True s) = m_computed s \<and>
   (m \<noteq> RefByString False \<longrightarrow> m_computed (call m s) = m_computed s) \<and>
   (\<not> m_computed s \<longrightarrow> \<not> m_computed (calls ms s)) \<and>
   (m_computed (calls ms s) \<longleftrightarrow> m_computed s \<and> RefByString False \<notin> set ms) \<and>
   m_computed (operator_assign this other h this) = m_computed (h other)"
proof -
  have a: "\<not> m_computed (ref_by_string False s) \<and>
      m_computed (ref_by_string True s) = m_computed s"
    by (simp add: ref_by_string_def)
  have b: "m \<noteq> RefByString False \<longrightarrow> m_computed (call m s) = m_computed s"
    by (simp add: call_computed)
  have c: "m_computed (calls ms s) \<longleftrightarrow> m_computed s \<and> RefByString False \<notin> set ms"
    by (rule calls_computed)
  have d: "m_computed (operator_assign this other h this) = m_computed (h other)"
    by (simp add: operator_assign_cases)
  show ?thesis using a b c d by blast
qed

theorem computed_monotone_under_member_calls_witness:
  "\<not> m_computed (calls [RefByString True, ClearIfCompute, RefByType, SetKeep]
      (ref_by_string False ReferencedState_init)) \<and>
   m_computed (call ClearIfCompute (ref_by_string True ReferencedState_init))"
proof -
  have f: "\<not> m_computed (ref_by_string False ReferencedState_init)"
    by (simp add: ref_by_string_def)
  have t: "m_computed (ref_by_string True ReferencedState_init)"
    by (simp add: ref_by_string_def ReferencedState_init_def)
  have n: "ClearIfCompute \<noteq> RefByString False" by simp
  note w1 = computed_monotone_under_member_calls [where s = "ref_by_string False
      ReferencedState_init" and ms = "[RefByString True, ClearIfCompute, RefByType, SetKeep]"
      and m = ClearIfCompute]
  note w2 = computed_monotone_under_member_calls [where s = "ref_by_string True
      ReferencedState_init" and ms = "[]" and m = ClearIfCompute]
  from w1 f have 1: "\<not> m_computed (calls [RefByString True, ClearIfCompute, RefByType, SetKeep]
      (ref_by_string False ReferencedState_init))"
    by blast
  from w2 n t have 2: "m_computed (call ClearIfCompute (ref_by_string True ReferencedState_init))"
    by blast
  show ?thesis using 1 2 by blast
qed

section \<open>The keep count\<close>

text \<open>
  The counter is an \<open>unsigned int\<close>: \<open>2\<^sup>3\<^sup>2 + 1\<close> increments leave it at 1.
  After \<open>set_blanket_keepnames()\<close> and that many \<open>increment_keep_count()\<close> calls
  on a fresh record, \<open>is_blanket_names_kept()\<close> is true although the counter was
  not incremented exactly once.
\<close>

theorem blanket_names_kept_after_wraparound:
  "is_blanket_names_kept
     (calls (SetBlanketKeepnames # replicate 4294967297 IncrementKeepCount)
        ReferencedState_init) \<and>
   count_list (SetBlanketKeepnames # replicate 4294967297 IncrementKeepCount)
     IncrementKeepCount = 4294967297"
proof -
  have "m_keep_count (calls (replicate 4294967297 IncrementKeepCount)
      (set_blanket_keepnames ReferencedState_init)) = 1"
    by (simp add: calls_replicate_increment set_blanket_keepnames_def ReferencedState_init_def)
  moreover have "m_blanket_keepnames (calls (replicate 4294967297 IncrementKeepCount)
      (set_blanket_keepnames ReferencedState_init))"
    by (simp add: calls_blanket_keepnames set_blanket_keepnames_def)
  ultimately show ?thesis
    by (simp add: is_blanket_names_kept_def count_list_replicate_same)
qed

text \<open>
  C6, with the wrap-around. In every state \<open>is_blanket_names_kept()\<close> is true
  exactly when \<open>m_blanket_keepnames\<close> is set and \<open>m_keep_count\<close> is 1. After a
  sequence of member calls on a fresh record it is true exactly when
  \<open>set_blanket_keepnames()\<close> is among the calls and the number of
  \<open>increment_keep_count()\<close> calls is 1 modulo \<open>2\<^sup>3\<^sup>2\<close>; with fewer than
  \<open>2\<^sup>3\<^sup>2\<close> increments that is: exactly one. From a state where it is true, one
  more increment makes it false.
\<close>

theorem is_blanket_names_kept_iff:
  "(is_blanket_names_kept s \<longleftrightarrow> m_blanket_keepnames s \<and> m_keep_count s = 1) \<and>
   (is_blanket_names_kept (calls ms ReferencedState_init) \<longleftrightarrow>
      SetBlanketKeepnames \<in> set ms \<and> count_list ms IncrementKeepCount mod 2 ^ 32 = 1) \<and>
   (count_list ms IncrementKeepCount < 2 ^ 32 \<longrightarrow>
      (is_blanket_names_kept (calls ms ReferencedState_init) \<longleftrightarrow>
         SetBlanketKeepnames \<in> set ms \<and> count_list ms IncrementKeepCount = 1)) \<and>
   (is_blanket_names_kept s \<longrightarrow> \<not> is_blanket_names_kept (increment_keep_count s))"
proof -
  have a: "is_blanket_names_kept (calls ms ReferencedState_init) \<longleftrightarrow>
      SetBlanketKeepnames \<in> set ms \<and> count_list ms IncrementKeepCount mod 2 ^ 32 = 1"
    by (simp add: is_blanket_names_kept_def calls_blanket_keepnames calls_keep_count
        word32_of_nat_eq_1 ReferencedState_init_def)
  have b: "count_list ms IncrementKeepCount < 2 ^ 32 \<longrightarrow>
      count_list ms IncrementKeepCount mod 2 ^ 32 = count_list ms IncrementKeepCount"
    by simp
  have c: "is_blanket_names_kept s \<longrightarrow> \<not> is_blanket_names_kept (increment_keep_count s)"
    by (simp add: is_blanket_names_kept_def increment_keep_count_def)
  have d: "is_blanket_names_kept s \<longleftrightarrow> m_blanket_keepnames s \<and> m_keep_count s = 1"
    by (simp add: is_blanket_names_kept_def)
  show ?thesis using a b c d by presburger
qed

theorem is_blanket_names_kept_iff_witness:
  "is_blanket_names_kept (calls [IncrementKeepCount, SetBlanketKeepnames] ReferencedState_init) \<and>
   \<not> is_blanket_names_kept
     (increment_keep_count (calls [IncrementKeepCount, SetBlanketKeepnames] ReferencedState_init))"
proof -
  have lt: "count_list [IncrementKeepCount, SetBlanketKeepnames] IncrementKeepCount < 2 ^ 32"
    by simp
  note w = is_blanket_names_kept_iff [where ms = "[IncrementKeepCount, SetBlanketKeepnames]"
      and s = "calls [IncrementKeepCount, SetBlanketKeepnames] ReferencedState_init"]
  have mem: "SetBlanketKeepnames \<in> set [IncrementKeepCount, SetBlanketKeepnames]"
    by simp
  have one: "count_list [IncrementKeepCount, SetBlanketKeepnames] IncrementKeepCount = 1"
    by simp
  from w lt mem one have 1: "is_blanket_names_kept
      (calls [IncrementKeepCount, SetBlanketKeepnames] ReferencedState_init)"
    by blast
  with w show ?thesis by blast
qed

section \<open>Clearing before a recompute\<close>

text \<open>
  \<open>clear_if_compute()\<close> resets the two reference flags and nothing else. A record
  with \<open>m_keep\<close> set has \<open>m_computed\<close> true, and after \<open>clear_if_compute()\<close> and
  \<open>ref_by_type()\<close> it still has \<open>m_keep\<close> set: its state is not that of a fresh
  record after \<open>ref_by_type()\<close>.
\<close>

theorem clear_if_compute_keeps_keep_flags:
  "m_computed (set_keep ReferencedState_init) \<and>
   ref_by_type (clear_if_compute (set_keep ReferencedState_init)) \<noteq>
     ref_by_type ReferencedState_init"
proof -
  have "m_keep (ref_by_type (clear_if_compute (set_keep ReferencedState_init)))"
    by (simp add: setter_defs ReferencedState_init_def)
  moreover have "\<not> m_keep (ref_by_type ReferencedState_init)"
    by (simp add: setter_defs ReferencedState_init_def)
  moreover have "m_computed (set_keep ReferencedState_init)"
    by (simp add: setter_defs ReferencedState_init_def)
  ultimately show ?thesis by metis
qed

text \<open>
  C7, for the reference state. When \<open>m_computed\<close> is true, \<open>clear_if_compute()\<close>
  followed by \<open>ref_by_type()\<close> leaves \<open>m_bytype\<close> true, \<open>m_bystring\<close> false and
  \<open>m_computed\<close> true, as in a fresh record after \<open>ref_by_type()\<close>, and leaves
  every other member as it was. The whole state is that of the fresh record after
  \<open>ref_by_type()\<close> when the record has seen only \<open>ref_by_string(true)\<close>,
  \<open>ref_by_type()\<close> and \<open>clear_if_compute()\<close> calls since its construction. When
  \<open>m_computed\<close> is false, \<open>clear_if_compute()\<close> changes nothing.
\<close>

theorem clear_if_compute_then_ref_by_type:
  "(m_computed s \<longrightarrow>
      ref_by_type (clear_if_compute s) = s\<lparr> m_bystring := False, m_bytype := True \<rparr> \<and>
      m_bytype (ref_by_type (clear_if_compute s)) =
        m_bytype (ref_by_type ReferencedState_init) \<and>
      m_bystring (ref_by_type (clear_if_compute s)) =
        m_bystring (ref_by_type ReferencedState_init) \<and>
      m_computed (ref_by_type (clear_if_compute s)) =
        m_computed (ref_by_type ReferencedState_init)) \<and>
   (set ms \<subseteq> {RefByString True, RefByType, ClearIfCompute} \<longrightarrow>
      ref_by_type (clear_if_compute (calls ms ReferencedState_init)) =
        ref_by_type ReferencedState_init) \<and>
   (\<not> m_computed s \<longrightarrow> clear_if_compute s = s)"
proof -
  have a: "m_computed s \<longrightarrow>
      ref_by_type (clear_if_compute s) = s\<lparr> m_bystring := False, m_bytype := True \<rparr>"
    by (simp add: ref_by_type_def clear_if_compute_def)
  have b: "m_computed s \<longrightarrow>
      m_bytype (ref_by_type (clear_if_compute s)) =
        m_bytype (ref_by_type ReferencedState_init) \<and>
      m_bystring (ref_by_type (clear_if_compute s)) =
        m_bystring (ref_by_type ReferencedState_init) \<and>
      m_computed (ref_by_type (clear_if_compute s)) =
        m_computed (ref_by_type ReferencedState_init)"
    by (simp add: ref_by_type_def clear_if_compute_def ReferencedState_init_def)
  have c: "ref_by_type (clear_if_compute (calls ms ReferencedState_init)) =
        ref_by_type ReferencedState_init"
    if sub: "set ms \<subseteq> {RefByString True, RefByType, ClearIfCompute}"
  proof -
    have "ReferencedState_init =
        ReferencedState_init\<lparr> m_bystring := False, m_bytype := False \<rparr>"
      by (simp add: ReferencedState_init_def)
    with calls_reference_only [OF sub, of False False]
    obtain b' t' where "calls ms ReferencedState_init =
        ReferencedState_init\<lparr> m_bystring := b', m_bytype := t' \<rparr>"
      by auto
    then show ?thesis
      by (simp add: ref_by_type_def clear_if_compute_def ReferencedState_init_def)
  qed
  have d: "\<not> m_computed s \<longrightarrow> clear_if_compute s = s"
    by (simp add: clear_if_compute_def)
  show ?thesis using a b c d by blast
qed

theorem clear_if_compute_then_ref_by_type_witness:
  "ref_by_type (clear_if_compute (calls [RefByString True, RefByType] ReferencedState_init)) =
     ref_by_type ReferencedState_init \<and>
   m_keep (ref_by_type (clear_if_compute (set_keep (ref_by_string True ReferencedState_init)))) \<and>
   \<not> m_bystring
     (ref_by_type (clear_if_compute (set_keep (ref_by_string True ReferencedState_init)))) \<and>
   clear_if_compute (ref_by_string False ReferencedState_init) =
     ref_by_string False ReferencedState_init"
proof -
  have sub: "set [RefByString True, RefByType] \<subseteq> {RefByString True, RefByType, ClearIfCompute}"
    by simp
  have t: "m_computed (set_keep (ref_by_string True ReferencedState_init))"
    by (simp add: setter_defs ReferencedState_init_def)
  have f: "\<not> m_computed (ref_by_string False ReferencedState_init)"
    by (simp add: setter_defs)
  from clear_if_compute_then_ref_by_type [where ms = "[RefByString True, RefByType]"
      and s = "set_keep (ref_by_string True ReferencedState_init)"] sub t
  have 1: "ref_by_type (clear_if_compute (calls [RefByString True, RefByType]
        ReferencedState_init)) = ref_by_type ReferencedState_init"
    and 2: "ref_by_type (clear_if_compute (set_keep (ref_by_string True ReferencedState_init))) =
        (set_keep (ref_by_string True ReferencedState_init))
          \<lparr> m_bystring := False, m_bytype := True \<rparr>"
    by blast+
  from clear_if_compute_then_ref_by_type [where ms = "[]"
      and s = "ref_by_string False ReferencedState_init"] f
  have 3: "clear_if_compute (ref_by_string False ReferencedState_init) =
     ref_by_string False ReferencedState_init"
    by blast
  have 4: "m_keep ((set_keep (ref_by_string True ReferencedState_init))
          \<lparr> m_bystring := False, m_bytype := True \<rparr>)"
    by (simp add: set_keep_def)
  have 5: "\<not> m_bystring ((set_keep (ref_by_string True ReferencedState_init))
          \<lparr> m_bystring := False, m_bytype := True \<rparr>)"
    by simp
  from 4 5 have 6: "m_keep (ref_by_type (clear_if_compute (set_keep (ref_by_string True
      ReferencedState_init)))) \<and> \<not> m_bystring (ref_by_type (clear_if_compute (set_keep
      (ref_by_string True ReferencedState_init))))"
    unfolding 2 by blast
  show ?thesis using 1 3 6 by blast
qed

section \<open>The copy assignment\<close>

text \<open>
  C8. Assigning one object to another, distinct one gives the target the state of
  the source, member by member, the counter with the value it has at that moment,
  and leaves the source as it was. The two counters are then separate: any number
  of \<open>increment_keep_count()\<close> calls on the copy leave the counter of the source
  unchanged, and the other way round. A self-assignment changes nothing.
\<close>

theorem copy_assignment_snapshot:
  "operator_assign a a h = h \<and>
   (this \<noteq> other \<longrightarrow>
      operator_assign this other h this = h other \<and>
      operator_assign this other h other = h other \<and>
      m_keep_count (execs (replicate n (Call this IncrementKeepCount))
        (operator_assign this other h) other) = m_keep_count (h other) \<and>
      m_keep_count (execs (replicate n (Call this IncrementKeepCount))
        (operator_assign this other h) this) = m_keep_count (h other) + of_nat n \<and>
      m_keep_count (execs (replicate n (Call other IncrementKeepCount))
        (operator_assign this other h) this) = m_keep_count (h other) \<and>
      m_keep_count (execs (replicate n (Call other IncrementKeepCount))
        (operator_assign this other h) other) = m_keep_count (h other) + of_nat n)"
  by (simp add: execs_replicate_increment operator_assign_cases operator_assign_self)

theorem copy_assignment_snapshot_witness:
  "m_keep_count (execs (replicate 3 (Call 0 IncrementKeepCount))
     (operator_assign 0 1 (exec (Call 1 IncrementKeepCount) store_init)) 1) = 1 \<and>
   m_keep_count (execs (replicate 3 (Call 0 IncrementKeepCount))
     (operator_assign 0 1 (exec (Call 1 IncrementKeepCount) store_init)) 0) = 4 \<and>
   m_keep_count (execs (replicate 3 (Call 1 IncrementKeepCount))
     (operator_assign 0 1 (exec (Call 1 IncrementKeepCount) store_init)) 0) = 1"
proof -
  have ne: "(0::addr) \<noteq> 1" by simp
  have c: "m_keep_count (exec (Call 1 IncrementKeepCount) store_init 1) = 1"
    by (simp add: store_init_def increment_keep_count_def ReferencedState_init_def)
  note w = copy_assignment_snapshot [where this = 0 and other = 1 and n = 3 and a = 0
      and h = "exec (Call 1 IncrementKeepCount) store_init"]
  from w ne have
    "m_keep_count (execs (replicate 3 (Call 0 IncrementKeepCount))
       (operator_assign 0 1 (exec (Call 1 IncrementKeepCount) store_init)) 1) =
     m_keep_count (exec (Call 1 IncrementKeepCount) store_init 1)"
    and "m_keep_count (execs (replicate 3 (Call 0 IncrementKeepCount))
       (operator_assign 0 1 (exec (Call 1 IncrementKeepCount) store_init)) 0) =
     m_keep_count (exec (Call 1 IncrementKeepCount) store_init 1) + of_nat 3"
    and "m_keep_count (execs (replicate 3 (Call 1 IncrementKeepCount))
       (operator_assign 0 1 (exec (Call 1 IncrementKeepCount) store_init)) 0) =
     m_keep_count (exec (Call 1 IncrementKeepCount) store_init 1)"
    by blast+
  then show ?thesis unfolding c by simp
qed

end
